theory Spec2Isabelle
  imports Main "HOL-Library.Sublist"
begin

section \<open>Strings as Python sees them\<close>

text \<open>
  Strings are lists of 8-bit characters, read as the code points below 256.
  \<open>is_space\<close> is \<open>str.isspace\<close> on that range: TAB, LF, VT, FF, CR, the four
  separators 0x1C..0x1F, the blank, NEL (0x85) and the no-break space (0xA0).
\<close>

definition is_space :: "char \<Rightarrow> bool" where
  "is_space c \<longleftrightarrow>
     c = CHR 0x09 \<or> c = CHR 0x0A \<or> c = CHR 0x0B \<or> c = CHR 0x0C \<or> c = CHR 0x0D \<or>
     c = CHR 0x1C \<or> c = CHR 0x1D \<or> c = CHR 0x1E \<or> c = CHR 0x1F \<or> c = CHR 0x20 \<or>
     c = CHR 0x85 \<or> c = CHR 0xA0"

text \<open>\<open>s.strip()\<close>: leading and trailing whitespace removed.\<close>

definition strip :: "string \<Rightarrow> string" where
  "strip s = rev (dropWhile is_space (rev (dropWhile is_space s)))"

text \<open>\<open>sub in s\<close> on strings: \<open>sub\<close> occurs in \<open>s\<close> as a contiguous block.\<close>

definition contains :: "string \<Rightarrow> string \<Rightarrow> bool" where
  "contains s sub \<longleftrightarrow> sublist sub s"

text \<open>
  \<open>s.split()\<close> with no argument: the maximal runs of non-whitespace characters, in
  order; never an empty field. \<open>cur\<close> is the field being read, reversed.
\<close>

fun split_ws :: "string \<Rightarrow> string \<Rightarrow> string list" where
  "split_ws cur [] = (if cur = [] then [] else [rev cur])"
| "split_ws cur (c # cs) =
     (if is_space c
      then (if cur = [] then split_ws [] cs else rev cur # split_ws [] cs)
      else split_ws (c # cur) cs)"

definition split :: "string \<Rightarrow> string list" where
  "split s = split_ws [] s"

text \<open>
  \<open>s.splitlines()\<close>: the line boundaries are LF, CR, CR LF (one boundary), VT, FF,
  0x1C, 0x1D, 0x1E and NEL (0x85); the boundaries are dropped and a final line is kept
  only when it is not empty.
\<close>

definition is_linebreak :: "char \<Rightarrow> bool" where
  "is_linebreak c \<longleftrightarrow>
     c = CHR 0x0A \<or> c = CHR 0x0B \<or> c = CHR 0x0C \<or> c = CHR 0x0D \<or>
     c = CHR 0x1C \<or> c = CHR 0x1D \<or> c = CHR 0x1E \<or> c = CHR 0x85"

fun splitlines_from :: "string \<Rightarrow> string \<Rightarrow> string list" where
  "splitlines_from cur [] = (if cur = [] then [] else [rev cur])"
| "splitlines_from cur [c] =
     (if is_linebreak c then [rev cur] else [rev (c # cur)])"
| "splitlines_from cur (c # d # cs) =
     (if c = CHR 0x0D \<and> d = CHR 0x0A then rev cur # splitlines_from [] cs
      else if is_linebreak c then rev cur # splitlines_from [] (d # cs)
      else splitlines_from (c # cur) (d # cs))"

definition splitlines :: "string \<Rightarrow> string list" where
  "splitlines s = splitlines_from [] s"

text \<open>\<open>s.split(sep)\<close> with a one-character separator: always at least one field.\<close>

fun split_on :: "char \<Rightarrow> string \<Rightarrow> string list" where
  "split_on sep [] = [[]]"
| "split_on sep (c # cs) =
     (if c = sep then [] # split_on sep cs
      else (case split_on sep cs of
              [] \<Rightarrow> [[c]]
            | w # ws \<Rightarrow> (c # w) # ws))"

text \<open>
  \<open>int(s)\<close> on a string: surrounding whitespace is ignored, then an optional sign and
  a non-empty run of decimal digits in which single underscores may stand between two
  digits. Anything else raises \<open>ValueError\<close>, here \<open>None\<close>; so does a string of
  more digits than the interpreter's limit (4300 by default, from Python 3.11 on).
\<close>

definition max_str_digits :: nat where
  "max_str_digits = 4300"

definition is_digit :: "char \<Rightarrow> bool" where
  "is_digit c \<longleftrightarrow> c \<in> set ''0123456789''"

definition digit_val :: "char \<Rightarrow> int" where
  "digit_val c = int (of_char c) - 48"

text \<open>\<open>digits acc prev s\<close>: \<open>prev\<close> tells whether the previous character was a digit.\<close>

fun digits :: "int \<Rightarrow> bool \<Rightarrow> string \<Rightarrow> int option" where
  "digits acc prev [] = (if prev then Some acc else None)"
| "digits acc prev (c # cs) =
     (if is_digit c then digits (10 * acc + digit_val c) True cs
      else if c = CHR ''_'' \<and> prev then digits acc False cs
      else None)"

definition py_int :: "string \<Rightarrow> int option" where
  "py_int s =
     (case strip s of
        [] \<Rightarrow> None
      | c # cs \<Rightarrow>
          if max_str_digits < length (filter is_digit (c # cs)) then None
          else if c = CHR ''-'' then map_option uminus (digits 0 False cs)
          else if c = CHR ''+'' then digits 0 False cs
          else digits 0 False (c # cs))"

section \<open>The shell\<close>

text \<open>
  Every access to the bucket is a command line given to \<open>subprocess.run\<close>. The run
  either completes with captured standard output and standard error (the exit status
  is never read by the program) or raises an exception with a message. What a command
  answers may depend on the commands issued before it, so a shell is a function of
  that history.
\<close>

datatype proc_result = Completed string string | Raised string

type_synonym shell = "string list \<Rightarrow> string \<Rightarrow> proc_result"

text \<open>
  The state the program threads: the commands issued so far and the lines written
  with \<open>print\<close>.
\<close>

record world =
  calls :: "string list"
  printed :: "string list"

definition run_command :: "shell \<Rightarrow> string \<Rightarrow> world \<Rightarrow> (string \<times> string) \<times> world" where
  "run_command sh command w =
     (case sh (calls w) command of
        Completed out err \<Rightarrow> ((strip out, strip err), w\<lparr>calls := calls w @ [command]\<rparr>)
      | Raised e \<Rightarrow> (('''', e), w\<lparr>calls := calls w @ [command]\<rparr>))"

definition print :: "string \<Rightarrow> world \<Rightarrow> world" where
  "print line w = w\<lparr>printed := printed w @ [line]\<rparr>"

section \<open>Region detection\<close>

definition CANDIDATE_REGIONS :: "string list" where
  "CANDIDATE_REGIONS =
     [''us-east-1'', ''us-east-2'', ''us-west-1'', ''us-west-2'', ''af-south-1'',
      ''ap-east-1'', ''ap-south-1'', ''ap-south-2'', ''ap-northeast-1'', ''ap-northeast-2'',
      ''ap-northeast-3'', ''ap-southeast-1'', ''ap-southeast-2'', ''ap-southeast-3'',
      ''ap-southeast-4'', ''ap-southeast-5'', ''ap-southeast-7'', ''ca-central-1'',
      ''ca-west-1'', ''eu-central-1'', ''eu-central-2'', ''eu-west-1'', ''eu-west-2'',
      ''eu-west-3'', ''eu-south-1'', ''eu-north-1'', ''il-central-1'', ''me-south-1'',
      ''mx-central-1'', ''sa-east-1'']"

definition detect_cmd :: "string \<Rightarrow> string \<Rightarrow> string" where
  "detect_cmd bucket_name region =
     ''aws s3 ls s3://'' @ bucket_name @ ''/ --region '' @ region @ '' --no-sign-request''"

text \<open>The loop of \<open>auto_detect_region\<close> over the regions still to try.\<close>

fun detect_loop :: "shell \<Rightarrow> string \<Rightarrow> string list \<Rightarrow> world \<Rightarrow> string option \<times> world" where
  "detect_loop sh bucket_name [] w = (None, w)"
| "detect_loop sh bucket_name (region # rest) w =
     (case run_command sh (detect_cmd bucket_name region) w of
        ((stdout, stderr), w1) \<Rightarrow>
          if \<not> contains stderr ''An error occurred'' \<and> stdout \<noteq> []
          then (Some region, print (''Detected Region: '' @ region) w1)
          else detect_loop sh bucket_name rest w1)"

text \<open>
  The test of the loop, on the answer the candidate's command gets after the commands
  in \<open>history\<close>; and the commands issued once the first \<open>k\<close> candidates are tried.
\<close>

definition detect_accepts :: "shell \<Rightarrow> string \<Rightarrow> string list \<Rightarrow> string \<Rightarrow> bool" where
  "detect_accepts sh bucket_name history region =
     (case fst (run_command sh (detect_cmd bucket_name region) \<lparr>calls = history, printed = []\<rparr>) of
        (stdout, stderr) \<Rightarrow> \<not> contains stderr ''An error occurred'' \<and> stdout \<noteq> [])"

text \<open>
  Two kinds of answer to a candidate's command. \<open>listed\<close>: no error text and a
  non-empty listing. \<open>unmarked_error\<close>: error text that lacks the words
  "An error occurred", next to a non-empty listing.
\<close>

definition listed :: "shell \<Rightarrow> string \<Rightarrow> string list \<Rightarrow> string \<Rightarrow> bool" where
  "listed sh bucket_name history region =
     (case fst (run_command sh (detect_cmd bucket_name region) \<lparr>calls = history, printed = []\<rparr>) of
        (stdout, stderr) \<Rightarrow> stderr = [] \<and> stdout \<noteq> [])"

definition unmarked_error :: "shell \<Rightarrow> string \<Rightarrow> string list \<Rightarrow> string \<Rightarrow> bool" where
  "unmarked_error sh bucket_name history region =
     (case fst (run_command sh (detect_cmd bucket_name region) \<lparr>calls = history, printed = []\<rparr>) of
        (stdout, stderr) \<Rightarrow>
          stderr \<noteq> [] \<and> \<not> contains stderr ''An error occurred'' \<and> stdout \<noteq> [])"

definition tried :: "string \<Rightarrow> string list \<Rightarrow> world \<Rightarrow> nat \<Rightarrow> string list" where
  "tried bucket_name regions w k = calls w @ map (detect_cmd bucket_name) (take k regions)"

definition auto_detect_region :: "shell \<Rightarrow> string \<Rightarrow> world \<Rightarrow> string option \<times> world" where
  "auto_detect_region sh bucket_name w = detect_loop sh bucket_name CANDIDATE_REGIONS w"

section \<open>Object listing\<close>

datatype py_error = ValueError

text \<open>One listed object: the dictionary with the keys date, time, size and key.\<close>

record s3_object =
  date :: string
  time :: string
  obj_size :: int
  key :: string

definition list_cmd :: "string \<Rightarrow> string \<Rightarrow> string" where
  "list_cmd bucket_name region =
     ''aws s3 ls s3://'' @ bucket_name @ ''/ --recursive --region '' @ region @
     '' --no-sign-request''"

text \<open>
  The loop over the non-blank lines. A line of fewer than four fields is passed over;
  on a line of four or more, \<open>int(parts[2])\<close> is evaluated with nothing around it
  to catch its \<open>ValueError\<close>, which therefore leaves the function.
\<close>

fun parse_lines :: "string list \<Rightarrow> s3_object list \<Rightarrow> py_error + s3_object list" where
  "parse_lines [] objects = Inr objects"
| "parse_lines (line # lines) objects =
     (let parts = split line in
      if length parts \<ge> 4
      then (case py_int (parts ! 2) of
              None \<Rightarrow> Inl ValueError
            | Some n \<Rightarrow>
                parse_lines lines
                  (objects @ [\<lparr>date = parts ! 0, time = parts ! 1, obj_size = n, key = parts ! 3\<rparr>]))
      else parse_lines lines objects)"

text \<open>The non-blank lines of the listing.\<close>

definition listing_lines :: "string \<Rightarrow> string list" where
  "listing_lines stdout = filter (\<lambda>line. strip line \<noteq> []) (splitlines stdout)"

definition list_s3_objects ::
  "shell \<Rightarrow> string \<Rightarrow> string \<Rightarrow> world \<Rightarrow> (py_error + s3_object list) \<times> world" where
  "list_s3_objects sh bucket_name region w =
     (case run_command sh (list_cmd bucket_name region) w of
        ((stdout, stderr), w1) \<Rightarrow>
          if stderr \<noteq> []
          then (Inr [], print (''Error listing objects: '' @ stderr) w1)
          else (parse_lines (listing_lines stdout) [], w1))"

section \<open>Permission probes\<close>

definition read_cmd :: "string \<Rightarrow> string \<Rightarrow> string \<Rightarrow> string" where
  "read_cmd bucket_name folder region =
     ''aws s3 ls s3://'' @ bucket_name @ ''/'' @ folder @ '' --region '' @ region @
     '' --no-sign-request''"

definition check_read_access :: "shell \<Rightarrow> string \<Rightarrow> string \<Rightarrow> string \<Rightarrow> world \<Rightarrow> bool \<times> world" where
  "check_read_access sh bucket_name folder region w =
     (case run_command sh (read_cmd bucket_name folder region) w of
        ((stdout, stderr), w1) \<Rightarrow>
          if contains stderr ''AccessDenied'' \<or> contains stderr ''An error occurred''
          then (False, w1)
          else (True, w1))"

text \<open>
  The write probe draws eight random alphanumeric characters and a temporary local
  file; both are inputs here: \<open>rnd\<close> and \<open>local_test_file\<close>. Writing and removing the
  local file does not reach the bucket and is left out.
\<close>

definition upload_cmd :: "string \<Rightarrow> string \<Rightarrow> string \<Rightarrow> string \<Rightarrow> string \<Rightarrow> string" where
  "upload_cmd local_test_file bucket_name folder test_file region =
     ''aws s3 cp '' @ local_test_file @ '' s3://'' @ bucket_name @ ''/'' @ folder @ test_file @
     '' --region '' @ region @ '' --no-sign-request''"

definition delete_cmd :: "string \<Rightarrow> string \<Rightarrow> string \<Rightarrow> string \<Rightarrow> string" where
  "delete_cmd bucket_name folder test_file region =
     ''aws s3 rm s3://'' @ bucket_name @ ''/'' @ folder @ test_file @
     '' --region '' @ region @ '' --no-sign-request''"

definition check_write_access ::
  "shell \<Rightarrow> string \<Rightarrow> string \<Rightarrow> string \<Rightarrow> string \<Rightarrow> string \<Rightarrow> world \<Rightarrow> bool \<times> world" where
  "check_write_access sh bucket_name folder region rnd local_test_file w =
     (let test_file = rnd @ ''.txt'' in
      case run_command sh (upload_cmd local_test_file bucket_name folder test_file region) w of
        ((stdout, stderr), w1) \<Rightarrow>
          if contains stderr ''AccessDenied'' \<or> contains stderr ''An error occurred''
          then (False, w1)
          else (case run_command sh (delete_cmd bucket_name folder test_file region) w1 of
                  (_, w2) \<Rightarrow> (True, w2)))"

section \<open>Grouping by top-level folder\<close>

text \<open>
  A Python dictionary keeps its keys in insertion order, and the probes below run in
  that order, so a dictionary is an association list with distinct keys.
  \<open>setdefault_append d k v\<close> is \<open>d.setdefault(k, []).append(v)\<close> and
  \<open>dict_set d k v\<close> is \<open>d[k] = v\<close>.
\<close>

fun setdefault_append :: "('k \<times> 'v list) list \<Rightarrow> 'k \<Rightarrow> 'v \<Rightarrow> ('k \<times> 'v list) list" where
  "setdefault_append [] k v = [(k, [v])]"
| "setdefault_append ((k', vs) # d) k v =
     (if k' = k then (k', vs @ [v]) # d else (k', vs) # setdefault_append d k v)"

fun dict_set :: "('k \<times> 'v) list \<Rightarrow> 'k \<Rightarrow> 'v \<Rightarrow> ('k \<times> 'v) list" where
  "dict_set [] k v = [(k, v)]"
| "dict_set ((k', v') # d) k v =
     (if k' = k then (k', v) # d else (k', v') # dict_set d k v)"

definition keys :: "('k \<times> 'v) list \<Rightarrow> 'k list" where
  "keys d = map fst d"

text \<open>\<open>obj["key"].split('/')[0]\<close>\<close>

definition folder_of :: "s3_object \<Rightarrow> string" where
  "folder_of obj = hd (split_on (CHR ''/'') (key obj))"

fun group_loop ::
  "(string \<times> s3_object list) list \<Rightarrow> s3_object list \<Rightarrow> (string \<times> s3_object list) list" where
  "group_loop groups [] = groups"
| "group_loop groups (obj # objects) =
     group_loop (setdefault_append groups (folder_of obj) obj) objects"

definition group_objects_by_folder :: "s3_object list \<Rightarrow> (string \<times> s3_object list) list" where
  "group_objects_by_folder objects = group_loop [] objects"

section \<open>The run\<close>

text \<open>The dictionary with the keys read and write stored for each folder.\<close>

record permission =
  perm_read :: bool
  perm_write :: bool

text \<open>
  What \<open>main\<close> hands to the renderers in the end. The renderers themselves (console
  tables, the HTML file) only read these values and are not part of the model; nor are
  the lines printed once the permissions are known (the permission table, the two
  totals, the file listing), so \<open>printed\<close> holds the lines up to that point.
\<close>

record report =
  rep_bucket :: string
  rep_region :: string
  rep_timestamp :: string
  rep_objects :: "s3_object list"
  rep_groups :: "(string \<times> s3_object list) list"
  rep_permissions :: "(string \<times> permission) list"
  rep_total_size :: int
  rep_total_files :: int

datatype outcome = RegionFailed | NoObjects | Finished report

text \<open>
  The loop over \<open>groups.keys()\<close>. The \<open>i\<close>-th write probe of the run takes its random
  name and its temporary file from \<open>names i\<close>.
\<close>

fun permission_loop ::
  "shell \<Rightarrow> string \<Rightarrow> string \<Rightarrow> (nat \<Rightarrow> string \<times> string) \<Rightarrow> nat \<Rightarrow> string list \<Rightarrow>
   (string \<times> permission) list \<Rightarrow> world \<Rightarrow> (string \<times> permission) list \<times> world" where
  "permission_loop sh bucket_name region names i [] folder_permissions w =
     (folder_permissions, w)"
| "permission_loop sh bucket_name region names i (folder # folders) folder_permissions w =
     (let folder_path = folder @ ''/'' in
      case check_read_access sh bucket_name folder_path region w of
        (read_access, w1) \<Rightarrow>
          (case check_write_access sh bucket_name folder_path region
                  (fst (names i)) (snd (names i)) w1 of
             (write_access, w2) \<Rightarrow>
               permission_loop sh bucket_name region names (Suc i) folders
                 (dict_set folder_permissions folder \<lparr>perm_read = read_access, perm_write = write_access\<rparr>)
                 w2))"

text \<open>\<open>sum(obj["size"] for obj in objects)\<close>: the running total starts at 0.\<close>

definition py_sum :: "int list \<Rightarrow> int" where
  "py_sum xs = foldl (+) 0 xs"

definition total_size :: "s3_object list \<Rightarrow> int" where
  "total_size objects = py_sum (map obj_size objects)"

text \<open>\<open>len(objects)\<close>\<close>

definition total_files :: "s3_object list \<Rightarrow> int" where
  "total_files objects = int (length objects)"

text \<open>
  \<open>main\<close>. The two answers typed at the prompts and the clock reading are inputs.
  An exception of the listing is not caught and ends the run.
\<close>

definition resolve_region :: "shell \<Rightarrow> string \<Rightarrow> string \<Rightarrow> world \<Rightarrow> string option \<times> world" where
  "resolve_region sh bucket_name region w =
     (if region = []
      then (case auto_detect_region sh bucket_name (print ''Auto-detecting region...'' w) of
              (detected, w1) \<Rightarrow>
                if detected = None \<or> detected = Some []
                then (None, print ''Failed to detect region. Exiting.'' w1)
                else (detected, w1))
      else (Some region, w))"

definition main ::
  "shell \<Rightarrow> string \<Rightarrow> string \<Rightarrow> string \<Rightarrow> (nat \<Rightarrow> string \<times> string) \<Rightarrow> world \<Rightarrow>
   (py_error + outcome) \<times> world" where
  "main sh bucket_input region_input timestamp names w =
     (let bucket_name = strip bucket_input in
      case resolve_region sh bucket_name (strip region_input) w of
        (None, w1) \<Rightarrow> (Inr RegionFailed, w1)
      | (Some region, w1) \<Rightarrow>
          (case list_s3_objects sh bucket_name region
                  (print (CHR 0x0A # ''Timestamp: '' @ timestamp) w1) of
             (Inl e, w2) \<Rightarrow> (Inl e, w2)
           | (Inr objects, w2) \<Rightarrow>
               if objects = []
               then (Inr NoObjects, print ''No objects found in bucket.'' w2)
               else
                 (let groups = group_objects_by_folder objects in
                  case permission_loop sh bucket_name region names 0 (keys groups) [] w2 of
                    (folder_permissions, w3) \<Rightarrow>
                      (Inr (Finished
                         \<lparr>rep_bucket = bucket_name, rep_region = region,
                          rep_timestamp = timestamp, rep_objects = objects,
                          rep_groups = groups, rep_permissions = folder_permissions,
                          rep_total_size = total_size objects,
                          rep_total_files = total_files objects\<rparr>), w3))))"

section \<open>Example runs\<close>

definition fresh_world :: world where
  "fresh_world = \<lparr>calls = [], printed = []\<rparr>"

text \<open>
  A bucket served from us-east-2: the first candidate answers with an empty listing
  and no error text, the second lists one object, every other command is refused.
\<close>

definition sh_empty_first :: shell where
  "sh_empty_first history command =
     (if command = detect_cmd ''b'' ''us-east-1'' then Completed '''' ''''
      else if command = detect_cmd ''b'' ''us-east-2''
      then Completed ''2025-03-27 15:48:38          5 a.txt'' ''''
      else Completed ''''
             ''An error occurred (NoSuchBucket) when calling the ListObjectsV2 operation'')"

definition obj_a :: s3_object where
  "obj_a = \<lparr>date = ''2025-03-27'', time = ''15:48:38'', obj_size = 500, key = ''docs/a.txt''\<rparr>"

definition obj_b :: s3_object where
  "obj_b = \<lparr>date = ''2025-03-27'', time = ''15:48:39'', obj_size = 0, key = ''readme.md''\<rparr>"

definition obj_c :: s3_object where
  "obj_c = \<lparr>date = ''2025-03-27'', time = ''15:48:40'', obj_size = 7, key = ''docs/sub/c.txt''\<rparr>"

text \<open>A bucket that refuses every anonymous request.\<close>

definition sh_denied :: shell where
  "sh_denied history command =
     (if prefix ''aws s3 ls'' command
      then Completed ''''
             ''An error occurred (AccessDenied) when calling the ListObjectsV2 operation: Access Denied''
      else Completed ''''
             ''upload failed: An error occurred (AccessDenied) when calling the PutObject operation: Access Denied'')"

text \<open>A folder that takes uploads but refuses deletions: the cleanup fails.\<close>

definition sh_no_cleanup :: shell where
  "sh_no_cleanup history command =
     (if prefix ''aws s3 cp'' command
      then Completed ''upload: ../tmp/tmpk3x9 to s3://b/docs/Ab3dE6gH.txt'' ''''
      else Completed ''''
             ''delete failed: An error occurred (AccessDenied) when calling the DeleteObject operation: Access Denied'')"

text \<open>No network: every command ends with the client's connection error.\<close>

definition sh_down :: shell where
  "sh_down history command =
     Completed ''''
       (''Could not connect to the endpoint URL: '' @ [CHR 0x22] @
        ''https://b.s3.us-east-1.amazonaws.com/'' @ [CHR 0x22])"

text \<open>The command cannot even be started.\<close>

definition sh_crash :: shell where
  "sh_crash history command = Raised ''[Errno 12] Cannot allocate memory''"

text \<open>An empty bucket: every listing succeeds with nothing in it.\<close>

definition sh_empty_bucket :: shell where
  "sh_empty_bucket history command = Completed '''' ''''"

text \<open>A listing whose second line has a size field that is no integer.\<close>

definition sh_bad_size :: shell where
  "sh_bad_size history command =
     Completed
       (''2025-03-27 15:48:38        500 docs/a.txt'' @ [CHR 0x0A] @
        ''2025-03-27 15:48:39        1x2 docs/b.txt'' @ [CHR 0x0A])
       ''''"

text \<open>A listing of one object whose key is "my file.txt".\<close>

definition sh_spaced_key :: shell where
  "sh_spaced_key history command =
     Completed (''2025-03-27 15:48:38      12345 my file.txt'' @ [CHR 0x0A]) ''''"

text \<open>
  Three objects in three folders; every folder can be listed, only \<open>logs\<close> takes
  uploads.
\<close>

definition sh_scenario :: shell where
  "sh_scenario history command =
     (if command = list_cmd ''b'' ''us-east-1''
      then Completed
             (''2025-03-27 15:48:38        500 docs/a.txt'' @ [CHR 0x0A] @
              ''2025-03-27 15:48:39          0 public/readme.md'' @ [CHR 0x0A] @
              ''2025-03-27 15:48:40    5000000 logs/2024/x.log'' @ [CHR 0x0A])
             ''''
      else if prefix ''aws s3 ls'' command then Completed ''2025-03-27 15:48:38 1 x'' ''''
      else if prefix ''aws s3 cp'' command \<and> \<not> contains command ''s3://b/logs/''
      then Completed ''''
             ''upload failed: An error occurred (AccessDenied) when calling the PutObject operation: Access Denied''
      else Completed ''ok'' '''')"

definition names0 :: "nat \<Rightarrow> string \<times> string" where
  "names0 i = (''Ab3dE6gH'', ''/tmp/tmpk3x9'')"

text \<open>
  How a listed object comes from its line: the first, second and fourth field, and
  the third read as an integer.
\<close>

definition made_from :: "string \<Rightarrow> s3_object \<Rightarrow> bool" where
  "made_from line obj \<longleftrightarrow>
     date obj = split line ! 0 \<and> time obj = split line ! 1 \<and>
     py_int (split line ! 2) = Some (obj_size obj) \<and> key obj = split line ! 3"

text \<open>What the run on \<open>sh_scenario\<close> hands to the renderers, and the state it ends in.\<close>

definition scenario_report :: report where
  "scenario_report =
     \<lparr>rep_bucket = ''b'', rep_region = ''us-east-1'',
      rep_timestamp = ''2025-03-27 15:48:38 UTC'',
      rep_objects =
        [\<lparr>date = ''2025-03-27'', time = ''15:48:38'', obj_size = 500, key = ''docs/a.txt''\<rparr>,
         \<lparr>date = ''2025-03-27'', time = ''15:48:39'', obj_size = 0, key = ''public/readme.md''\<rparr>,
         \<lparr>date = ''2025-03-27'', time = ''15:48:40'', obj_size = 5000000, key = ''logs/2024/x.log''\<rparr>],
      rep_groups =
        [(''docs'', [\<lparr>date = ''2025-03-27'', time = ''15:48:38'', obj_size = 500, key = ''docs/a.txt''\<rparr>]),
         (''public'', [\<lparr>date = ''2025-03-27'', time = ''15:48:39'', obj_size = 0, key = ''public/readme.md''\<rparr>]),
         (''logs'', [\<lparr>date = ''2025-03-27'', time = ''15:48:40'', obj_size = 5000000, key = ''logs/2024/x.log''\<rparr>])],
      rep_permissions =
        [(''docs'', \<lparr>perm_read = True, perm_write = False\<rparr>),
         (''public'', \<lparr>perm_read = True, perm_write = False\<rparr>),
         (''logs'', \<lparr>perm_read = True, perm_write = True\<rparr>)],
      rep_total_size = 5000500, rep_total_files = 3\<rparr>"

definition scenario_end :: world where
  "scenario_end =
     \<lparr>calls =
        [''aws s3 ls s3://b/ --recursive --region us-east-1 --no-sign-request'',
         ''aws s3 ls s3://b/docs/ --region us-east-1 --no-sign-request'',
         ''aws s3 cp /tmp/tmpk3x9 s3://b/docs/Ab3dE6gH.txt --region us-east-1 --no-sign-request'',
         ''aws s3 ls s3://b/public/ --region us-east-1 --no-sign-request'',
         ''aws s3 cp /tmp/tmpk3x9 s3://b/public/Ab3dE6gH.txt --region us-east-1 --no-sign-request'',
         ''aws s3 ls s3://b/logs/ --region us-east-1 --no-sign-request'',
         ''aws s3 cp /tmp/tmpk3x9 s3://b/logs/Ab3dE6gH.txt --region us-east-1 --no-sign-request'',
         ''aws s3 rm s3://b/logs/Ab3dE6gH.txt --region us-east-1 --no-sign-request''],
      printed = [CHR 0x0A # ''Timestamp: 2025-03-27 15:48:38 UTC'']\<rparr>"

section \<open>Grouping is a partition\<close>

lemma split_on_nonempty: "split_on sep s \<noteq> []"
  by (induction s) (auto split: list.splits)

lemma hd_split_on: "hd (split_on sep s) = takeWhile (\<lambda>c. c \<noteq> sep) s"
  by (induction s) (auto split: list.splits simp: split_on_nonempty)

lemma keys_setdefault_append:
  "keys (setdefault_append d k v) = (if k \<in> set (keys d) then keys d else keys d @ [k])"
  by (induction d) (force simp: keys_def)+

lemma distinct_setdefault_append:
  "distinct (keys d) \<Longrightarrow> distinct (keys (setdefault_append d k v))"
  by (simp add: keys_setdefault_append)

lemma map_of_setdefault_append:
  "map_of (setdefault_append d k v) =
     (map_of d)(k \<mapsto> (case map_of d k of None \<Rightarrow> [v] | Some vs \<Rightarrow> vs @ [v]))"
  by (induction d) (auto simp: fun_eq_iff)

lemma lengths_setdefault_append:
  "(\<Sum>g\<leftarrow>setdefault_append d k v. length (snd g)) = Suc (\<Sum>g\<leftarrow>d. length (snd g))"
  by (induction d) auto

lemma distinct_group_loop:
  "distinct (keys g) \<Longrightarrow> distinct (keys (group_loop g objects))"
  by (induction objects arbitrary: g) (auto simp: distinct_setdefault_append)

lemma map_of_group_loop:
  "map_of (group_loop g objects) f =
     (case map_of g f of
        None \<Rightarrow> (if filter (\<lambda>obj. folder_of obj = f) objects = [] then None
                 else Some (filter (\<lambda>obj. folder_of obj = f) objects))
      | Some vs \<Rightarrow> Some (vs @ filter (\<lambda>obj. folder_of obj = f) objects))"
  by (induction objects arbitrary: g) (auto simp: map_of_setdefault_append split: option.splits)

lemma lengths_group_loop:
  "(\<Sum>g\<leftarrow>group_loop g objects. length (snd g)) = (\<Sum>g\<leftarrow>g. length (snd g)) + length objects"
  by (induction objects arbitrary: g) (auto simp: lengths_setdefault_append)

lemma keys_group_loop:
  "set (keys (group_loop g objects)) = set (keys g) \<union> folder_of ` set objects"
  by (induction objects arbitrary: g) (auto simp: keys_setdefault_append)

text \<open>
  C8. Grouping is an exact partition of the object sequence: the folder names are
  distinct, every group is non-empty and is exactly the objects of its folder in their
  input order, every object is found in the group of its own folder, which is its key
  up to the first slash (the whole key when there is none), and the group sizes add up
  to the number of objects.
\<close>

theorem group_objects_by_folder_partition:
  "distinct (keys (group_objects_by_folder objects)) \<and>
   (\<forall>(folder, members) \<in> set (group_objects_by_folder objects).
      members \<noteq> [] \<and> members = filter (\<lambda>obj. folder_of obj = folder) objects) \<and>
   (\<forall>obj \<in> set objects.
      folder_of obj = takeWhile (\<lambda>c. c \<noteq> CHR ''/'') (key obj) \<and>
      map_of (group_objects_by_folder objects) (folder_of obj) =
        Some (filter (\<lambda>obj'. folder_of obj' = folder_of obj) objects)) \<and>
   (\<Sum>g\<leftarrow>group_objects_by_folder objects. length (snd g)) = length objects"
proof -
  let ?g = "group_objects_by_folder objects"
  have d: "distinct (keys ?g)"
    using distinct_group_loop [of "[]" objects]
    by (simp add: group_objects_by_folder_def keys_def)
  have m: "map_of ?g f =
      (if filter (\<lambda>obj. folder_of obj = f) objects = [] then None
       else Some (filter (\<lambda>obj. folder_of obj = f) objects))" for f
    by (simp add: group_objects_by_folder_def map_of_group_loop)
  have a: "members \<noteq> [] \<and> members = filter (\<lambda>obj. folder_of obj = folder) objects"
    if "(folder, members) \<in> set ?g" for folder members
  proof -
    from that d have "map_of ?g folder = Some members"
      by (simp add: keys_def)
    then show ?thesis
      by (simp add: m split: if_splits)
  qed
  have b: "map_of ?g (folder_of obj) =
        Some (filter (\<lambda>obj'. folder_of obj' = folder_of obj) objects)"
    if "obj \<in> set objects" for obj
  proof -
    from that have "filter (\<lambda>obj'. folder_of obj' = folder_of obj) objects \<noteq> []"
      by (auto simp: filter_empty_conv)
    then show ?thesis by (simp add: m)
  qed
  have c: "(\<Sum>g\<leftarrow>?g. length (snd g)) = length objects"
    by (simp add: group_objects_by_folder_def lengths_group_loop)
  from d a b c show ?thesis
    by (auto simp: folder_of_def hd_split_on)
qed

theorem group_objects_by_folder_partition_witness:
  "group_objects_by_folder [obj_a, obj_b, obj_c] =
     [(''docs'', [obj_a, obj_c]), (''readme.md'', [obj_b])] \<and>
   map_of (group_objects_by_folder [obj_a, obj_b, obj_c]) ''docs'' = Some [obj_a, obj_c] \<and>
   (\<Sum>g\<leftarrow>group_objects_by_folder [obj_a, obj_b, obj_c]. length (snd g)) = 3"
proof -
  have f: "folder_of obj_a = ''docs''" "folder_of obj_b = ''readme.md''" "folder_of obj_c = ''docs''"
    by (simp_all add: folder_of_def obj_a_def obj_b_def obj_c_def)
  have g: "group_objects_by_folder [obj_a, obj_b, obj_c] =
     [(''docs'', [obj_a, obj_c]), (''readme.md'', [obj_b])]"
    by (simp add: group_objects_by_folder_def f)
  have "obj_a \<in> set [obj_a, obj_b, obj_c]" by simp
  with group_objects_by_folder_partition [of "[obj_a, obj_b, obj_c]"]
  have "map_of (group_objects_by_folder [obj_a, obj_b, obj_c]) (folder_of obj_a) =
          Some (filter (\<lambda>obj'. folder_of obj' = folder_of obj_a) [obj_a, obj_b, obj_c])"
    and "(\<Sum>g\<leftarrow>group_objects_by_folder [obj_a, obj_b, obj_c]. length (snd g)) = length [obj_a, obj_b, obj_c]"
    by blast+
  with g show ?thesis by (simp add: f)
qed

section \<open>Region detection returns the first accepted candidate\<close>

lemma run_command_calls: "calls (snd (run_command sh c w)) = calls w @ [c]"
  by (simp add: run_command_def split: proc_result.splits)

lemma run_command_printed: "printed (snd (run_command sh c w)) = printed w"
  by (simp add: run_command_def split: proc_result.splits)

lemma run_command_answer:
  "fst (run_command sh c w) = fst (run_command sh c \<lparr>calls = calls w, printed = []\<rparr>)"
  by (simp add: run_command_def split: proc_result.splits)

lemma tried_0: "tried b rs w 0 = calls w"
  by (simp add: tried_def)

lemma tried_Suc:
  "calls w1 = calls w @ [detect_cmd b r] \<Longrightarrow> tried b (r # rs) w (Suc k) = tried b rs w1 k"
  by (simp add: tried_def)

lemma detect_loop_first:
  "(case fst (detect_loop sh b rs w) of
      Some r \<Rightarrow>
        (\<exists>k<length rs. r = rs ! k \<and> detect_accepts sh b (tried b rs w k) (rs ! k) \<and>
           (\<forall>j<k. \<not> detect_accepts sh b (tried b rs w j) (rs ! j)) \<and>
           calls (snd (detect_loop sh b rs w)) = tried b rs w (Suc k))
    | None \<Rightarrow>
        (\<forall>j<length rs. \<not> detect_accepts sh b (tried b rs w j) (rs ! j)) \<and>
        calls (snd (detect_loop sh b rs w)) = tried b rs w (length rs))"
proof (induction rs arbitrary: w)
  case Nil
  show ?case by (simp add: tried_def)
next
  case (Cons r rs)
  obtain out err w1 where run: "run_command sh (detect_cmd b r) w = ((out, err), w1)"
    by (metis prod.exhaust)
  have c1: "calls w1 = calls w @ [detect_cmd b r]"
    using run_command_calls [of sh "detect_cmd b r" w] run by simp
  have acc: "detect_accepts sh b (calls w) r \<longleftrightarrow> \<not> contains err ''An error occurred'' \<and> out \<noteq> []"
  proof -
    have "fst (run_command sh (detect_cmd b r) \<lparr>calls = calls w, printed = []\<rparr>) = (out, err)"
      using run_command_answer [of sh "detect_cmd b r" w] run by simp
    then show ?thesis
      by (simp add: detect_accepts_def)
  qed
  show ?case
  proof (cases "detect_accepts sh b (calls w) r")
    case True
    with acc run have res: "detect_loop sh b (r # rs) w = (Some r, print (''Detected Region: '' @ r) w1)"
      by simp
    have "calls (print (''Detected Region: '' @ r) w1) = tried b (r # rs) w (Suc 0)"
      by (simp add: print_def c1 tried_def)
    with True res show ?thesis
      by (auto simp: tried_0 intro!: exI [of _ 0])
  next
    case False
    with acc run have res: "detect_loop sh b (r # rs) w = detect_loop sh b rs w1"
      by auto
    note t = tried_Suc [OF c1]
    show ?thesis
    proof (cases "fst (detect_loop sh b rs w1)")
      case None
      with Cons.IH [of w1] have
        n: "\<forall>j<length rs. \<not> detect_accepts sh b (tried b rs w1 j) (rs ! j)"
        and c: "calls (snd (detect_loop sh b rs w1)) = tried b rs w1 (length rs)"
        by simp_all
      have "\<not> detect_accepts sh b (tried b (r # rs) w j) ((r # rs) ! j)"
        if "j < length (r # rs)" for j
      proof (cases j)
        case 0
        with False show ?thesis by (simp add: tried_0)
      next
        case (Suc i)
        with that n show ?thesis by (simp add: t)
      qed
      with None c res show ?thesis
        by (simp add: t)
    next
      case (Some r')
      with Cons.IH [of w1] obtain k where
        k: "k < length rs" "r' = rs ! k" "detect_accepts sh b (tried b rs w1 k) (rs ! k)"
          "\<forall>j<k. \<not> detect_accepts sh b (tried b rs w1 j) (rs ! j)"
          "calls (snd (detect_loop sh b rs w1)) = tried b rs w1 (Suc k)"
        by auto
      have "\<not> detect_accepts sh b (tried b (r # rs) w j) ((r # rs) ! j)"
        if "j < Suc k" for j
      proof (cases j)
        case 0
        with False show ?thesis by (simp add: tried_0)
      next
        case (Suc i)
        with that k(4) show ?thesis by (simp add: t)
      qed
      with k Some res show ?thesis
        by (auto simp: t intro!: exI [of _ "Suc k"])
    qed
  qed
qed

lemmas shell_eval = run_command_def detect_cmd_def strip_def is_space_def contains_def
  print_def sublist_code fresh_world_def

lemma distinct_CANDIDATE_REGIONS: "distinct CANDIDATE_REGIONS"
  by (simp add: CANDIDATE_REGIONS_def)

lemma length_tried: "length (tried b rs w k) = length (calls w) + min k (length rs)"
  by (simp add: tried_def min.commute)

lemma detect_accepts_listed:
  "\<not> unmarked_error sh b history region \<Longrightarrow>
     detect_accepts sh b history region \<longleftrightarrow> listed sh b history region"
  by (cases "fst (run_command sh (detect_cmd b region) \<lparr>calls = history, printed = []\<rparr>)")
     (auto simp: detect_accepts_def listed_def unmarked_error_def contains_def)

text \<open>
  C1, as the code has it. Take a run of region detection in which no command it
  issues is answered with error text that lacks "An error occurred" next to a
  non-empty listing. Then detection returns the first candidate, in the order of the
  fixed list, whose command is answered without error text and with a non-empty
  listing; no earlier candidate was answered so, and no command is issued for a later
  candidate. It returns \<open>None\<close> exactly when no candidate is answered so, after trying
  all of them.
\<close>

theorem auto_detect_region_first_listed:
  assumes "\<forall>j < length (calls (snd (auto_detect_region sh bucket_name w))) - length (calls w).
             \<not> unmarked_error sh bucket_name (tried bucket_name CANDIDATE_REGIONS w j)
                 (CANDIDATE_REGIONS ! j)"
  shows "(case fst (auto_detect_region sh bucket_name w) of
      Some region \<Rightarrow>
        (\<exists>k<length CANDIDATE_REGIONS. region = CANDIDATE_REGIONS ! k \<and>
           listed sh bucket_name (tried bucket_name CANDIDATE_REGIONS w k) region \<and>
           (\<forall>j<k. \<not> listed sh bucket_name (tried bucket_name CANDIDATE_REGIONS w j)
                      (CANDIDATE_REGIONS ! j)) \<and>
           calls (snd (auto_detect_region sh bucket_name w)) =
             tried bucket_name CANDIDATE_REGIONS w (Suc k))
    | None \<Rightarrow>
        (\<forall>j<length CANDIDATE_REGIONS.
           \<not> listed sh bucket_name (tried bucket_name CANDIDATE_REGIONS w j)
               (CANDIDATE_REGIONS ! j)) \<and>
        calls (snd (auto_detect_region sh bucket_name w)) =
          tried bucket_name CANDIDATE_REGIONS w (length CANDIDATE_REGIONS))"
proof -
  let ?C = CANDIDATE_REGIONS
  let ?res = "auto_detect_region sh bucket_name w"
  let ?h = "\<lambda>j. tried bucket_name ?C w j"
  note loop = detect_loop_first [where sh = sh and b = bucket_name and rs = ?C and w = w,
      folded auto_detect_region_def]
  show ?thesis
  proof (cases "fst ?res")
    case None
    with loop have n: "\<forall>j<length ?C. \<not> detect_accepts sh bucket_name (?h j) (?C ! j)"
      and c: "calls (snd ?res) = ?h (length ?C)"
      by simp_all
    from c have "length (calls (snd ?res)) - length (calls w) = length ?C"
      by (simp add: length_tried)
    with assms have u: "\<forall>j<length ?C. \<not> unmarked_error sh bucket_name (?h j) (?C ! j)"
      by simp
    have "\<not> listed sh bucket_name (?h j) (?C ! j)" if "j < length ?C" for j
      using that n u detect_accepts_listed [of sh bucket_name "?h j" "?C ! j"] by blast
    with None c show ?thesis by simp
  next
    case (Some region)
    with loop obtain k where k: "k < length ?C" "region = ?C ! k"
      "detect_accepts sh bucket_name (?h k) (?C ! k)"
      "\<forall>j<k. \<not> detect_accepts sh bucket_name (?h j) (?C ! j)"
      "calls (snd ?res) = ?h (Suc k)"
      by auto
    from k(1,5) have "length (calls (snd ?res)) - length (calls w) = Suc k"
      by (simp add: length_tried)
    with assms have u: "\<forall>j<Suc k. \<not> unmarked_error sh bucket_name (?h j) (?C ! j)"
      by simp
    from u k(3) have a: "listed sh bucket_name (?h k) (?C ! k)"
      using detect_accepts_listed [of sh bucket_name "?h k" "?C ! k"] by simp
    have b: "\<not> listed sh bucket_name (?h j) (?C ! j)" if "j < k" for j
      using that k(4) u detect_accepts_listed [of sh bucket_name "?h j" "?C ! j"]
      by (simp add: less_Suc_eq)
    from Some k(1,2,5) a b show ?thesis
      by auto
  qed
qed

lemma empty_first_run:
  "auto_detect_region sh_empty_first ''b'' fresh_world =
     (Some ''us-east-2'',
      \<lparr>calls = [detect_cmd ''b'' ''us-east-1'', detect_cmd ''b'' ''us-east-2''],
       printed = [''Detected Region: us-east-2'']\<rparr>)"
  by (simp add: auto_detect_region_def CANDIDATE_REGIONS_def sh_empty_first_def shell_eval)

theorem auto_detect_region_first_listed_witness:
  "\<not> unmarked_error sh_empty_first ''b'' [] ''us-east-1'' \<and>
   \<not> unmarked_error sh_empty_first ''b'' [detect_cmd ''b'' ''us-east-1''] ''us-east-2'' \<and>
   fst (auto_detect_region sh_empty_first ''b'' fresh_world) = Some ''us-east-2'' \<and>
   listed sh_empty_first ''b'' [detect_cmd ''b'' ''us-east-1''] ''us-east-2'' \<and>
   \<not> listed sh_empty_first ''b'' [] ''us-east-1''"
proof -
  note r = empty_first_run
  have t: "tried ''b'' CANDIDATE_REGIONS fresh_world 1 = [detect_cmd ''b'' ''us-east-1'']"
    "tried ''b'' CANDIDATE_REGIONS fresh_world 0 = []"
    "CANDIDATE_REGIONS ! 0 = ''us-east-1''" "CANDIDATE_REGIONS ! 1 = ''us-east-2''"
    "1 < length CANDIDATE_REGIONS"
    by (simp_all add: tried_def CANDIDATE_REGIONS_def fresh_world_def)
  have u: "\<not> unmarked_error sh_empty_first ''b'' [] ''us-east-1''"
    "\<not> unmarked_error sh_empty_first ''b'' [detect_cmd ''b'' ''us-east-1''] ''us-east-2''"
    by (simp_all add: unmarked_error_def sh_empty_first_def shell_eval)
  have "length (calls (snd (auto_detect_region sh_empty_first ''b'' fresh_world))) -
          length (calls fresh_world) = 2"
    using r by (simp add: fresh_world_def)
  moreover have "\<not> unmarked_error sh_empty_first ''b'' (tried ''b'' CANDIDATE_REGIONS fresh_world j)
                 (CANDIDATE_REGIONS ! j)" if "j < 2" for j
  proof -
    from that have "j = 0 \<or> j = 1" by auto
    with u t show ?thesis by auto
  qed
  ultimately have h: "\<forall>j < length (calls (snd (auto_detect_region sh_empty_first ''b'' fresh_world)))
        - length (calls fresh_world).
      \<not> unmarked_error sh_empty_first ''b'' (tried ''b'' CANDIDATE_REGIONS fresh_world j)
          (CANDIDATE_REGIONS ! j)"
    by simp
  from auto_detect_region_first_listed [OF h] r
  obtain k where k: "k < length CANDIDATE_REGIONS" "''us-east-2'' = CANDIDATE_REGIONS ! k"
    "listed sh_empty_first ''b'' (tried ''b'' CANDIDATE_REGIONS fresh_world k) ''us-east-2''"
    "\<forall>j<k. \<not> listed sh_empty_first ''b'' (tried ''b'' CANDIDATE_REGIONS fresh_world j)
                      (CANDIDATE_REGIONS ! j)"
    by auto
  from k(1,2) t(4,5) have "k = 1"
    using distinct_CANDIDATE_REGIONS by (metis nth_eq_iff_index_eq)
  with k(3,4) have "listed sh_empty_first ''b'' (tried ''b'' CANDIDATE_REGIONS fresh_world 1) ''us-east-2''"
    "\<not> listed sh_empty_first ''b'' (tried ''b'' CANDIDATE_REGIONS fresh_world 0) (CANDIDATE_REGIONS ! 0)"
    by auto
  with t u r show ?thesis by simp
qed

text \<open>
  The answers set aside above are accepted by the test of the loop, which looks for
  the words "An error occurred" only.
\<close>

lemma unmarked_error_accepted:
  "unmarked_error sh b history region \<Longrightarrow> detect_accepts sh b history region"
  by (cases "fst (run_command sh (detect_cmd b region) \<lparr>calls = history, printed = []\<rparr>)")
     (simp add: detect_accepts_def unmarked_error_def)

text \<open>
  C1 as stated fails: the first candidate answers without any error and with an
  empty listing, and detection passes it over and returns the second candidate.
\<close>

theorem auto_detect_region_skips_empty_listing:
  "sh_empty_first (calls fresh_world) (detect_cmd ''b'' (CANDIDATE_REGIONS ! 0)) = Completed '''' '''' \<and>
   \<not> contains '''' ''An error occurred'' \<and>
   fst (auto_detect_region sh_empty_first ''b'' fresh_world) = Some (CANDIDATE_REGIONS ! 1) \<and>
   CANDIDATE_REGIONS ! 1 \<noteq> CANDIDATE_REGIONS ! 0"
  by (simp add: auto_detect_region_def CANDIDATE_REGIONS_def sh_empty_first_def shell_eval)

section \<open>The permission probes\<close>

text \<open>
  Stripping the error text does not change whether a marker that begins and ends with
  a non-blank character occurs in it, so the probes classify the text the command
  wrote.
\<close>

lemma contains_dropWhile:
  assumes "sub \<noteq> []" "\<not> is_space (hd sub)"
  shows "contains (dropWhile is_space s) sub \<longleftrightarrow> contains s sub"
proof (induction s)
  case Nil
  show ?case by simp
next
  case (Cons c s)
  show ?case
  proof (cases "is_space c")
    case False
    then show ?thesis by simp
  next
    case True
    with assms have "\<not> prefix sub (c # s)"
      by (cases sub) auto
    with True Cons show ?thesis
      by (simp add: contains_def sublist_Cons_right)
  qed
qed

lemma contains_rev: "contains (rev s) (rev sub) \<longleftrightarrow> contains s sub"
  by (simp add: contains_def)

lemma contains_strip:
  assumes "sub \<noteq> []" "\<not> is_space (hd sub)" "\<not> is_space (last sub)"
  shows "contains (strip s) sub \<longleftrightarrow> contains s sub"
proof -
  have r: "rev sub \<noteq> []" "\<not> is_space (hd (rev sub))"
    using assms by (simp_all add: hd_rev)
  have "contains (strip s) sub \<longleftrightarrow>
      contains (dropWhile is_space (rev (dropWhile is_space s))) (rev sub)"
    by (simp add: strip_def contains_def sublist_rev_left)
  also have "\<dots> \<longleftrightarrow> contains (rev (dropWhile is_space s)) (rev sub)"
    by (rule contains_dropWhile [OF r])
  also have "\<dots> \<longleftrightarrow> contains (dropWhile is_space s) sub"
    by (rule contains_rev)
  also have "\<dots> \<longleftrightarrow> contains s sub"
    by (rule contains_dropWhile [OF assms(1,2)])
  finally show ?thesis .
qed

lemma run_command_markers:
  "sh (calls w) command = Completed out err \<Longrightarrow>
     (contains (snd (fst (run_command sh command w))) ''AccessDenied'' \<longleftrightarrow>
        contains err ''AccessDenied'') \<and>
     (contains (snd (fst (run_command sh command w))) ''An error occurred'' \<longleftrightarrow>
        contains err ''An error occurred'')"
  by (simp add: run_command_def contains_strip is_space_def)

lemma check_read_access_result:
  "fst (check_read_access sh bucket_name folder region w) \<longleftrightarrow>
     \<not> contains (snd (fst (run_command sh (read_cmd bucket_name folder region) w))) ''AccessDenied'' \<and>
     \<not> contains (snd (fst (run_command sh (read_cmd bucket_name folder region) w))) ''An error occurred''"
  by (cases "run_command sh (read_cmd bucket_name folder region) w")
     (auto simp: check_read_access_def)

lemma upload_not_delete: "upload_cmd l b f t r \<noteq> delete_cmd b' f' t' r'"
  by (simp add: upload_cmd_def delete_cmd_def)

text \<open>
  C4. When the upload of the canary is not classified as failed (its error text has
  neither "AccessDenied" nor "An error occurred"), the write probe returns \<open>True\<close>
  and the commands it issues are the upload followed by the deletion of the same
  object, whatever the shell answers to the deletion: a failed cleanup changes neither
  the result nor anything else the probe returns.
\<close>

theorem check_write_access_cleanup_attempted:
  assumes "\<not> contains (snd (fst (run_command sh
               (upload_cmd local_test_file bucket_name folder (rnd @ ''.txt'') region) w)))
             ''AccessDenied''"
    and "\<not> contains (snd (fst (run_command sh
               (upload_cmd local_test_file bucket_name folder (rnd @ ''.txt'') region) w)))
             ''An error occurred''"
  shows "fst (check_write_access sh bucket_name folder region rnd local_test_file w) = True \<and>
         calls (snd (check_write_access sh bucket_name folder region rnd local_test_file w)) =
           calls w @ [upload_cmd local_test_file bucket_name folder (rnd @ ''.txt'') region,
                      delete_cmd bucket_name folder (rnd @ ''.txt'') region]"
proof -
  let ?up = "upload_cmd local_test_file bucket_name folder (rnd @ ''.txt'') region"
  let ?rm = "delete_cmd bucket_name folder (rnd @ ''.txt'') region"
  obtain out err w1 where u: "run_command sh ?up w = ((out, err), w1)"
    by (metis prod.exhaust)
  obtain ans w2 where d: "run_command sh ?rm w1 = (ans, w2)"
    by (metis prod.exhaust)
  from u assms have ok: "\<not> contains err ''AccessDenied''" "\<not> contains err ''An error occurred''"
    by simp_all
  have c1: "calls w1 = calls w @ [?up]"
    using run_command_calls [of sh ?up w] u by simp
  have c2: "calls w2 = calls w1 @ [?rm]"
    using run_command_calls [of sh ?rm w1] d by simp
  from u d ok have "check_write_access sh bucket_name folder region rnd local_test_file w = (True, w2)"
    by (simp add: check_write_access_def)
  with c1 c2 show ?thesis by simp
qed

theorem check_write_access_cleanup_attempted_witness:
  "\<not> contains (snd (fst (run_command sh_no_cleanup
        (upload_cmd ''/tmp/tmpk3x9'' ''b'' ''docs/'' (''Ab3dE6gH'' @ ''.txt'') ''us-east-1'') fresh_world)))
      ''AccessDenied'' \<and>
   \<not> contains (snd (fst (run_command sh_no_cleanup
        (upload_cmd ''/tmp/tmpk3x9'' ''b'' ''docs/'' (''Ab3dE6gH'' @ ''.txt'') ''us-east-1'') fresh_world)))
      ''An error occurred'' \<and>
   contains (snd (fst (run_command sh_no_cleanup
        (delete_cmd ''b'' ''docs/'' (''Ab3dE6gH'' @ ''.txt'') ''us-east-1'')
        \<lparr>calls = [upload_cmd ''/tmp/tmpk3x9'' ''b'' ''docs/'' (''Ab3dE6gH'' @ ''.txt'') ''us-east-1''],
          printed = []\<rparr>)))
      ''AccessDenied'' \<and>
   fst (check_write_access sh_no_cleanup ''b'' ''docs/'' ''us-east-1'' ''Ab3dE6gH'' ''/tmp/tmpk3x9''
          fresh_world) = True \<and>
   calls (snd (check_write_access sh_no_cleanup ''b'' ''docs/'' ''us-east-1'' ''Ab3dE6gH''
          ''/tmp/tmpk3x9'' fresh_world)) =
     [''aws s3 cp /tmp/tmpk3x9 s3://b/docs/Ab3dE6gH.txt --region us-east-1 --no-sign-request'',
      ''aws s3 rm s3://b/docs/Ab3dE6gH.txt --region us-east-1 --no-sign-request'']"
proof -
  have a: "\<not> contains (snd (fst (run_command sh_no_cleanup
        (upload_cmd ''/tmp/tmpk3x9'' ''b'' ''docs/'' (''Ab3dE6gH'' @ ''.txt'') ''us-east-1'') fresh_world)))
      ''AccessDenied''"
    and b: "\<not> contains (snd (fst (run_command sh_no_cleanup
        (upload_cmd ''/tmp/tmpk3x9'' ''b'' ''docs/'' (''Ab3dE6gH'' @ ''.txt'') ''us-east-1'') fresh_world)))
      ''An error occurred''"
    by (simp_all add: sh_no_cleanup_def upload_cmd_def shell_eval)
  have c: "contains (snd (fst (run_command sh_no_cleanup
        (delete_cmd ''b'' ''docs/'' (''Ab3dE6gH'' @ ''.txt'') ''us-east-1'')
        \<lparr>calls = [upload_cmd ''/tmp/tmpk3x9'' ''b'' ''docs/'' (''Ab3dE6gH'' @ ''.txt'') ''us-east-1''],
          printed = []\<rparr>)))
      ''AccessDenied''"
    by (simp add: sh_no_cleanup_def delete_cmd_def shell_eval)
  from check_write_access_cleanup_attempted [OF a b] a b c show ?thesis
    by (simp add: upload_cmd_def delete_cmd_def fresh_world_def)
qed

text \<open>
  C5. When the error text of the canary upload contains "AccessDenied", the write
  probe returns \<open>False\<close>, the upload is the only command it issues, and the deletion
  command is not among them. When the error text of the scoped listing contains
  "AccessDenied", the read probe returns \<open>False\<close>.
\<close>

theorem access_denied_probes_false:
  "(contains (snd (fst (run_command sh
        (upload_cmd local_test_file bucket_name folder (rnd @ ''.txt'') region) w))) ''AccessDenied''
    \<longrightarrow> fst (check_write_access sh bucket_name folder region rnd local_test_file w) = False \<and>
        calls (snd (check_write_access sh bucket_name folder region rnd local_test_file w)) =
          calls w @ [upload_cmd local_test_file bucket_name folder (rnd @ ''.txt'') region] \<and>
        delete_cmd bucket_name folder (rnd @ ''.txt'') region \<notin>
          set (drop (length (calls w))
                 (calls (snd (check_write_access sh bucket_name folder region rnd local_test_file w))))) \<and>
   (contains (snd (fst (run_command sh (read_cmd bucket_name folder region) w))) ''AccessDenied''
    \<longrightarrow> fst (check_read_access sh bucket_name folder region w) = False)"
proof -
  let ?up = "upload_cmd local_test_file bucket_name folder (rnd @ ''.txt'') region"
  obtain out err w1 where u: "run_command sh ?up w = ((out, err), w1)"
    by (metis prod.exhaust)
  have c1: "calls w1 = calls w @ [?up]"
    using run_command_calls [of sh ?up w] u by simp
  have wr: "check_write_access sh bucket_name folder region rnd local_test_file w = (False, w1)"
    if "contains err ''AccessDenied''"
    using that u by (simp add: check_write_access_def)
  obtain out' err' w1' where r: "run_command sh (read_cmd bucket_name folder region) w = ((out', err'), w1')"
    by (metis prod.exhaust)
  have rd: "check_read_access sh bucket_name folder region w = (False, w1')"
    if "contains err' ''AccessDenied''"
    using that r by (simp add: check_read_access_def)
  from wr rd show ?thesis
    by (simp add: u r c1 upload_not_delete [symmetric])
qed

theorem access_denied_probes_false_witness:
  "contains (snd (fst (run_command sh_denied
        (upload_cmd ''/tmp/tmpk3x9'' ''b'' ''docs/'' (''Ab3dE6gH'' @ ''.txt'') ''us-east-1'') fresh_world)))
      ''AccessDenied'' \<and>
   contains (snd (fst (run_command sh_denied (read_cmd ''b'' ''docs/'' ''us-east-1'') fresh_world)))
      ''AccessDenied'' \<and>
   fst (check_write_access sh_denied ''b'' ''docs/'' ''us-east-1'' ''Ab3dE6gH'' ''/tmp/tmpk3x9''
          fresh_world) = False \<and>
   calls (snd (check_write_access sh_denied ''b'' ''docs/'' ''us-east-1'' ''Ab3dE6gH''
          ''/tmp/tmpk3x9'' fresh_world)) =
     [''aws s3 cp /tmp/tmpk3x9 s3://b/docs/Ab3dE6gH.txt --region us-east-1 --no-sign-request''] \<and>
   fst (check_read_access sh_denied ''b'' ''docs/'' ''us-east-1'' fresh_world) = False"
proof -
  have a: "contains (snd (fst (run_command sh_denied
        (upload_cmd ''/tmp/tmpk3x9'' ''b'' ''docs/'' (''Ab3dE6gH'' @ ''.txt'') ''us-east-1'') fresh_world)))
      ''AccessDenied''"
    by (simp add: sh_denied_def upload_cmd_def shell_eval)
  have b: "contains (snd (fst (run_command sh_denied (read_cmd ''b'' ''docs/'' ''us-east-1'') fresh_world)))
      ''AccessDenied''"
    by (simp add: sh_denied_def read_cmd_def shell_eval)
  from access_denied_probes_false [where sh = sh_denied and local_test_file = "''/tmp/tmpk3x9''"
      and bucket_name = "''b''" and folder = "''docs/''" and rnd = "''Ab3dE6gH''"
      and region = "''us-east-1''" and w = fresh_world] a b
  show ?thesis
    by (simp add: upload_cmd_def fresh_world_def)
qed

text \<open>
  C3 on a transport failure. The listing command fails to reach the endpoint, or
  cannot be started at all; the message has neither "AccessDenied" nor
  "An error occurred" in it, and the read probe returns \<open>True\<close>.
\<close>

theorem check_read_access_true_on_transport_failure:
  "sh_down [] (read_cmd ''b'' ''docs/'' ''us-east-1'') =
     Completed '''' (''Could not connect to the endpoint URL: '' @ [CHR 0x22] @
        ''https://b.s3.us-east-1.amazonaws.com/'' @ [CHR 0x22]) \<and>
   fst (check_read_access sh_down ''b'' ''docs/'' ''us-east-1'' fresh_world) = True \<and>
   sh_crash [] (read_cmd ''b'' ''docs/'' ''us-east-1'') = Raised ''[Errno 12] Cannot allocate memory'' \<and>
   fst (check_read_access sh_crash ''b'' ''docs/'' ''us-east-1'' fresh_world) = True"
  by (simp add: check_read_access_def sh_down_def sh_crash_def read_cmd_def shell_eval)

section \<open>Parsing the listing\<close>

lemma split_ws_fields:
  "\<forall>c\<in>set cur. \<not> is_space c \<Longrightarrow> f \<in> set (split_ws cur s) \<Longrightarrow>
     f \<noteq> [] \<and> (\<forall>c\<in>set f. \<not> is_space c)"
proof (induction cur s rule: split_ws.induct)
  case (1 cur)
  then show ?case by (cases "cur = []") simp_all
next
  case (2 cur c cs)
  show ?case
  proof (cases "is_space c")
    case True
    note sp = this
    show ?thesis
    proof (cases "cur = []")
      case True
      with sp "2.prems" have "f \<in> set (split_ws [] cs)" by simp
      with "2.IH"(1) [OF sp True] show ?thesis by simp
    next
      case False
      with sp "2.prems" have "f = rev cur \<or> f \<in> set (split_ws [] cs)" by simp
      then show ?thesis
      proof
        assume "f = rev cur"
        with False "2.prems"(1) show ?thesis by simp
      next
        assume "f \<in> set (split_ws [] cs)"
        with "2.IH"(2) [OF sp False] show ?thesis by simp
      qed
    qed
  next
    case False
    with "2.prems" have "f \<in> set (split_ws (c # cur) cs)" "\<forall>x\<in>set (c # cur). \<not> is_space x"
      by simp_all
    with "2.IH"(3) [OF False] show ?thesis by blast
  qed
qed

lemma split_fields: "f \<in> set (split s) \<Longrightarrow> f \<noteq> [] \<and> (\<forall>c\<in>set f. \<not> is_space c)"
  using split_ws_fields [of "[]" f s] by (simp add: split_def)

lemma parse_lines_made_from:
  "parse_lines lines acc = Inr objects \<Longrightarrow>
     \<exists>new. objects = acc @ new \<and>
       list_all2 made_from (filter (\<lambda>line. 4 \<le> length (split line)) lines) new"
proof (induction lines arbitrary: acc)
  case Nil
  then show ?case by simp
next
  case (Cons line lines)
  show ?case
  proof (cases "4 \<le> length (split line)")
    case False
    with Cons.prems have "parse_lines lines acc = Inr objects" by simp
    from Cons.IH [OF this] False show ?thesis by simp
  next
    case True
    with Cons.prems obtain n where n: "py_int (split line ! 2) = Some n"
      by (auto simp: Let_def split: option.splits)
    let ?obj = "\<lparr>date = split line ! 0, time = split line ! 1, obj_size = n, key = split line ! 3\<rparr>"
    from Cons.prems True n have "parse_lines lines (acc @ [?obj]) = Inr objects"
      by (simp add: Let_def)
    from Cons.IH [OF this] obtain new where
      new: "objects = (acc @ [?obj]) @ new"
        "list_all2 made_from (filter (\<lambda>line. 4 \<le> length (split line)) lines) new"
      by blast
    have "made_from line ?obj" using n by (simp add: made_from_def)
    with new True show ?thesis
      by (intro exI [of _ "?obj # new"]) simp
  qed
qed

text \<open>
  The enumeration raises exactly when some line of four or more fields has a third
  field that is no integer; shorter lines are passed over.
\<close>

lemma parse_lines_raises:
  "parse_lines lines acc = Inl ValueError \<longleftrightarrow>
     (\<exists>line\<in>set lines. 4 \<le> length (split line) \<and> py_int (split line ! 2) = None)"
  by (induction lines arbitrary: acc) (auto simp: Let_def split: option.splits)

lemma parse_lines_skips_short:
  "length (split line) < 4 \<Longrightarrow> parse_lines (line # lines) acc = parse_lines lines acc"
  by simp

text \<open>
  C10. When the listing has no error text and the enumeration returns, the objects
  are, in order, made from the non-blank lines of four or more fields, so also from
  every line of five or more: each object takes its key from the fourth field of its
  line and nothing from the fields after it, and no key contains whitespace.
\<close>

theorem list_s3_objects_key_is_fourth_field:
  assumes "fst (list_s3_objects sh bucket_name region w) = Inr objects"
    and "run_command sh (list_cmd bucket_name region) w = ((stdout, []), w1)"
  shows "list_all2 (\<lambda>line obj. made_from line obj \<and> key obj = split line ! 3)
           (filter (\<lambda>line. 4 \<le> length (split line)) (listing_lines stdout)) objects \<and>
         (\<forall>obj\<in>set objects. \<forall>c\<in>set (key obj). \<not> is_space c)"
proof -
  from assms have "parse_lines (listing_lines stdout) [] = Inr objects"
    by (simp add: list_s3_objects_def)
  from parse_lines_made_from [OF this]
  have m: "list_all2 made_from (filter (\<lambda>line. 4 \<le> length (split line)) (listing_lines stdout)) objects"
    by simp
  then have k: "list_all2 (\<lambda>line obj. made_from line obj \<and> key obj = split line ! 3)
           (filter (\<lambda>line. 4 \<le> length (split line)) (listing_lines stdout)) objects"
    by (rule list_all2_mono) (simp add: made_from_def)
  have "\<forall>c\<in>set (key obj). \<not> is_space c" if "obj \<in> set objects" for obj
  proof -
    from that obtain i where i: "i < length objects" "objects ! i = obj"
      by (auto simp: in_set_conv_nth)
    let ?lines = "filter (\<lambda>line. 4 \<le> length (split line)) (listing_lines stdout)"
    from m i have "length ?lines = length objects" "made_from (?lines ! i) obj"
      by (auto simp: list_all2_conv_all_nth)
    moreover from this i have "?lines ! i \<in> set ?lines"
      by (metis nth_mem)
    ultimately obtain line where "4 \<le> length (split line)" "made_from line obj"
      by auto
    then have "key obj \<in> set (split line)"
      by (simp add: made_from_def)
    then show ?thesis using split_fields by blast
  qed
  with k show ?thesis by blast
qed

lemmas parse_eval = list_s3_objects_def list_cmd_def listing_lines_def splitlines_def split_def
  is_linebreak_def py_int_def max_str_digits_def is_digit_def digit_val_def Let_def

lemma spaced_key_run:
  "list_s3_objects sh_spaced_key ''b'' ''us-east-1'' fresh_world =
     (Inr [\<lparr>date = ''2025-03-27'', time = ''15:48:38'', obj_size = 12345, key = ''my''\<rparr>],
      \<lparr>calls = [list_cmd ''b'' ''us-east-1''], printed = []\<rparr>)"
  by (simp add: sh_spaced_key_def parse_eval shell_eval)

lemma spaced_key_answer:
  "run_command sh_spaced_key (list_cmd ''b'' ''us-east-1'') fresh_world =
     ((''2025-03-27 15:48:38      12345 my file.txt'', []),
      \<lparr>calls = [list_cmd ''b'' ''us-east-1''], printed = []\<rparr>)"
  by (simp add: sh_spaced_key_def shell_eval)

theorem list_s3_objects_key_is_fourth_field_witness:
  "split ''2025-03-27 15:48:38      12345 my file.txt'' =
     [''2025-03-27'', ''15:48:38'', ''12345'', ''my'', ''file.txt''] \<and>
   fst (list_s3_objects sh_spaced_key ''b'' ''us-east-1'' fresh_world) =
     Inr [\<lparr>date = ''2025-03-27'', time = ''15:48:38'', obj_size = 12345, key = ''my''\<rparr>] \<and>
   made_from ''2025-03-27 15:48:38      12345 my file.txt''
     \<lparr>date = ''2025-03-27'', time = ''15:48:38'', obj_size = 12345, key = ''my''\<rparr>"
proof -
  have r: "fst (list_s3_objects sh_spaced_key ''b'' ''us-east-1'' fresh_world) =
     Inr [\<lparr>date = ''2025-03-27'', time = ''15:48:38'', obj_size = 12345, key = ''my''\<rparr>]"
    by (simp add: spaced_key_run)
  have s: "split ''2025-03-27 15:48:38      12345 my file.txt'' =
     [''2025-03-27'', ''15:48:38'', ''12345'', ''my'', ''file.txt'']"
    by (simp add: split_def is_space_def)
  have l: "listing_lines ''2025-03-27 15:48:38      12345 my file.txt'' =
     [''2025-03-27 15:48:38      12345 my file.txt'']"
    by (simp add: listing_lines_def splitlines_def is_linebreak_def strip_def is_space_def)
  from list_s3_objects_key_is_fourth_field [OF r spaced_key_answer] r s show ?thesis
    by (simp add: l)
qed

text \<open>
  C2 on a malformed size. The listing has no error text and two lines of four fields;
  the size field of the second is \<open>1x2\<close>. The enumeration does not skip that line and
  return the first object: \<open>int\<close> raises \<open>ValueError\<close>, which leaves the enumeration and
  the run.
\<close>

theorem list_s3_objects_raises_on_bad_size:
  "listing_lines (fst (fst (run_command sh_bad_size (list_cmd ''b'' ''us-east-1'') fresh_world))) =
     [''2025-03-27 15:48:38        500 docs/a.txt'', ''2025-03-27 15:48:39        1x2 docs/b.txt''] \<and>
   snd (fst (run_command sh_bad_size (list_cmd ''b'' ''us-east-1'') fresh_world)) = [] \<and>
   fst (list_s3_objects sh_bad_size ''b'' ''us-east-1'' fresh_world) = Inl ValueError \<and>
   fst (main sh_bad_size ''b'' ''us-east-1'' ''2025-03-27 15:48:38 UTC'' names0 fresh_world) =
     Inl ValueError"
  by (simp add: main_def resolve_region_def sh_bad_size_def parse_eval shell_eval)

section \<open>The report\<close>

lemma foldl_add_sum_list: "foldl (+) a xs = a + sum_list (xs :: int list)"
  by (induction xs arbitrary: a) simp_all

lemma py_sum_sum_list: "py_sum xs = sum_list xs"
  by (simp add: py_sum_def foldl_add_sum_list)

lemma main_Finished:
  assumes "main sh bucket_input region_input timestamp names w = (Inr (Finished rep), w')"
  obtains region w1 w2 objects where
    "resolve_region sh (strip bucket_input) (strip region_input) w = (Some region, w1)"
    "list_s3_objects sh (strip bucket_input) region
       (print (CHR 0x0A # ''Timestamp: '' @ timestamp) w1) = (Inr objects, w2)"
    "objects \<noteq> []"
    "rep_objects rep = objects"
    "rep_groups rep = group_objects_by_folder objects"
    "rep_permissions rep =
       fst (permission_loop sh (strip bucket_input) region names 0
              (keys (group_objects_by_folder objects)) [] w2)"
    "rep_total_size rep = total_size objects"
    "rep_total_files rep = total_files objects"
proof -
  obtain r w1 where r: "resolve_region sh (strip bucket_input) (strip region_input) w = (r, w1)"
    by (metis prod.exhaust)
  with assms obtain region where reg: "r = Some region"
    by (cases r) (simp_all add: main_def)
  obtain res w2 where l: "list_s3_objects sh (strip bucket_input) region
       (print (CHR 0x0A # ''Timestamp: '' @ timestamp) w1) = (res, w2)"
    by (metis prod.exhaust)
  with assms r reg obtain objects where o: "res = Inr objects"
    by (cases res) (simp_all add: main_def)
  from assms r reg l o have ne: "objects \<noteq> []"
    by (auto simp: main_def)
  obtain perms w3 where p: "permission_loop sh (strip bucket_input) region names 0
              (keys (group_objects_by_folder objects)) [] w2 = (perms, w3)"
    by (metis prod.exhaust)
  from assms r reg l o ne p have
    "rep = \<lparr>rep_bucket = strip bucket_input, rep_region = region,
            rep_timestamp = timestamp, rep_objects = objects,
            rep_groups = group_objects_by_folder objects, rep_permissions = perms,
            rep_total_size = total_size objects,
            rep_total_files = total_files objects\<rparr>"
    by (simp add: main_def Let_def)
  with r reg l o ne p that show thesis by simp
qed

lemmas probe_eval = check_read_access_def check_write_access_def read_cmd_def upload_cmd_def
  delete_cmd_def names0_def

lemma scenario_run:
  "main sh_scenario ''b'' ''us-east-1'' ''2025-03-27 15:48:38 UTC'' names0 fresh_world =
     (Inr (Finished scenario_report), scenario_end)"
  by (simp add: main_def resolve_region_def sh_scenario_def parse_eval shell_eval probe_eval
      group_objects_by_folder_def folder_of_def keys_def total_size_def total_files_def py_sum_def
      scenario_report_def scenario_end_def)

text \<open>
  C9. The totals are derived from the object sequence alone: the total size is the sum
  of the sizes and the total count is the length, both 0 on the empty sequence; and
  the totals in the report of a finished run are those of the objects in that report.
\<close>

theorem totals_derived_from_objects:
  "total_size objects = (\<Sum>obj\<leftarrow>objects. obj_size obj) \<and>
   total_files objects = int (length objects) \<and>
   total_size [] = 0 \<and> total_files [] = 0 \<and>
   (main sh bucket_input region_input timestamp names w = (Inr (Finished rep), w') \<longrightarrow>
      rep_total_size rep = (\<Sum>obj\<leftarrow>rep_objects rep. obj_size obj) \<and>
      rep_total_files rep = int (length (rep_objects rep)))"
proof -
  have a: "total_size objs = (\<Sum>obj\<leftarrow>objs. obj_size obj)" for objs
    by (simp add: total_size_def py_sum_sum_list)
  have b: "total_files objs = int (length objs)" for objs
    by (simp add: total_files_def)
  have "rep_total_size rep = (\<Sum>obj\<leftarrow>rep_objects rep. obj_size obj) \<and>
      rep_total_files rep = int (length (rep_objects rep))"
    if "main sh bucket_input region_input timestamp names w = (Inr (Finished rep), w')"
    using that by (rule main_Finished) (simp add: a b)
  with a b show ?thesis by simp
qed

theorem totals_derived_from_objects_witness:
  "main sh_scenario ''b'' ''us-east-1'' ''2025-03-27 15:48:38 UTC'' names0 fresh_world =
     (Inr (Finished scenario_report), scenario_end) \<and>
   map obj_size (rep_objects scenario_report) = [500, 0, 5000000] \<and>
   rep_total_size scenario_report = (\<Sum>obj\<leftarrow>rep_objects scenario_report. obj_size obj) \<and>
   rep_total_size scenario_report = 5000500 \<and>
   rep_total_files scenario_report = 3"
proof -
  note t = totals_derived_from_objects [THEN conjunct2, THEN conjunct2, THEN conjunct2,
      THEN conjunct2, THEN mp, OF scenario_run]
  have "map obj_size (rep_objects scenario_report) = [500, 0, 5000000]"
    and "length (rep_objects scenario_report) = 3"
    by (simp_all add: scenario_report_def)
  with t scenario_run show ?thesis
    by simp
qed

lemma keys_dict_set:
  "keys (dict_set d k v) = (if k \<in> set (keys d) then keys d else keys d @ [k])"
  by (induction d) (force simp: keys_def)+

lemma keys_permission_loop:
  "distinct (keys perms @ folders) \<Longrightarrow>
     keys (fst (permission_loop sh b r names i folders perms w)) = keys perms @ folders"
proof (induction folders arbitrary: i perms w)
  case Nil
  show ?case by simp
next
  case (Cons folder folders)
  obtain ra w1 where rd: "check_read_access sh b (folder @ ''/'') r w = (ra, w1)"
    by (metis prod.exhaust)
  obtain wa w2 where wr: "check_write_access sh b (folder @ ''/'') r (fst (names i)) (snd (names i)) w1 = (wa, w2)"
    by (metis prod.exhaust)
  let ?perms = "dict_set perms folder \<lparr>perm_read = ra, perm_write = wa\<rparr>"
  from Cons.prems have k: "keys ?perms = keys perms @ [folder]"
    by (simp add: keys_dict_set)
  with Cons.prems have "distinct (keys ?perms @ folders)" by simp
  from Cons.IH [OF this, of "Suc i" w2] k rd wr show ?case
    by (simp add: Let_def)
qed

text \<open>
  C7. In the report of a finished run the permissions have exactly the folders of the
  grouping as their keys, in the same order and each once, and these are exactly the
  top-level folders of the objects in the report.
\<close>

theorem report_folder_views_agree:
  assumes "main sh bucket_input region_input timestamp names w = (Inr (Finished rep), w')"
  shows "keys (rep_permissions rep) = keys (rep_groups rep) \<and>
         distinct (keys (rep_groups rep)) \<and>
         set (keys (rep_groups rep)) = folder_of ` set (rep_objects rep)"
  using assms
proof (rule main_Finished)
  fix region w1 w2 objects
  assume o: "rep_objects rep = objects"
    and g: "rep_groups rep = group_objects_by_folder objects"
    and p: "rep_permissions rep =
       fst (permission_loop sh (strip bucket_input) region names 0
              (keys (group_objects_by_folder objects)) [] w2)"
  have d: "distinct (keys (group_objects_by_folder objects))"
    using distinct_group_loop [of "[]" objects]
    by (simp add: group_objects_by_folder_def keys_def)
  then have "distinct (keys ([] :: (string \<times> permission) list) @ keys (group_objects_by_folder objects))"
    by (simp add: keys_def)
  from keys_permission_loop [OF this] p
  have "keys (rep_permissions rep) = keys (group_objects_by_folder objects)"
    by (simp add: keys_def)
  moreover have "set (keys (group_objects_by_folder objects)) = folder_of ` set objects"
    using keys_group_loop [of "[]" objects]
    by (simp add: group_objects_by_folder_def keys_def)
  ultimately show ?thesis using o g d by simp
qed

theorem report_folder_views_agree_witness:
  "main sh_scenario ''b'' ''us-east-1'' ''2025-03-27 15:48:38 UTC'' names0 fresh_world =
     (Inr (Finished scenario_report), scenario_end) \<and>
   keys (rep_groups scenario_report) = [''docs'', ''public'', ''logs''] \<and>
   keys (rep_permissions scenario_report) = [''docs'', ''public'', ''logs''] \<and>
   folder_of ` set (rep_objects scenario_report) = {''docs'', ''public'', ''logs''}"
proof -
  have g: "keys (rep_groups scenario_report) = [''docs'', ''public'', ''logs'']"
    by (simp add: scenario_report_def keys_def)
  from report_folder_views_agree [OF scenario_run] g scenario_run show ?thesis
    by auto
qed

section \<open>A failed listing and an empty one\<close>

text \<open>
  C6, as the code has it. When the listing command leaves error text, or leaves none
  and lists nothing, the enumeration returns the empty list; in the first case it has
  printed the error text before. On the empty list \<open>main\<close> prints that no objects were
  found and ends the run: the listing was its last command, so no permission probe is
  made and no report is built. The two cases differ in the printed error line only.
\<close>

theorem main_empty_or_failed_listing:
  assumes "resolve_region sh (strip bucket_input) (strip region_input) w = (Some region, w1)"
    and "run_command sh (list_cmd (strip bucket_input) region)
           (print (CHR 0x0A # ''Timestamp: '' @ timestamp) w1) = ((stdout, stderr), w2)"
    and "stderr \<noteq> [] \<or> stdout = []"
  shows "fst (list_s3_objects sh (strip bucket_input) region
                (print (CHR 0x0A # ''Timestamp: '' @ timestamp) w1)) = Inr [] \<and>
         main sh bucket_input region_input timestamp names w =
           (Inr NoObjects,
            print ''No objects found in bucket.''
              (if stderr \<noteq> [] then print (''Error listing objects: '' @ stderr) w2 else w2)) \<and>
         calls (snd (main sh bucket_input region_input timestamp names w)) =
           calls w1 @ [list_cmd (strip bucket_input) region]"
proof -
  let ?w = "print (CHR 0x0A # ''Timestamp: '' @ timestamp) w1"
  have c: "calls w2 = calls w1 @ [list_cmd (strip bucket_input) region]"
    using run_command_calls [of sh "list_cmd (strip bucket_input) region" ?w] assms(2)
    by (simp add: print_def)
  have l: "list_s3_objects sh (strip bucket_input) region ?w =
     (Inr [], if stderr \<noteq> [] then print (''Error listing objects: '' @ stderr) w2 else w2)"
    using assms(2,3)
    by (auto simp: list_s3_objects_def listing_lines_def splitlines_def)
  with assms(1) have "main sh bucket_input region_input timestamp names w =
           (Inr NoObjects,
            print ''No objects found in bucket.''
              (if stderr \<noteq> [] then print (''Error listing objects: '' @ stderr) w2 else w2))"
    by (simp add: main_def)
  with l c show ?thesis
    by (simp add: print_def)
qed

lemma resolve_region_given:
  "region \<noteq> [] \<Longrightarrow> resolve_region sh bucket_name region w = (Some region, w)"
  by (simp add: resolve_region_def)

theorem main_empty_or_failed_listing_witness:
  "fst (main sh_down ''b'' ''us-east-1'' ''2025-03-27 15:48:38 UTC'' names0 fresh_world) =
     Inr NoObjects \<and>
   calls (snd (main sh_down ''b'' ''us-east-1'' ''2025-03-27 15:48:38 UTC'' names0 fresh_world)) =
     [''aws s3 ls s3://b/ --recursive --region us-east-1 --no-sign-request''] \<and>
   printed (snd (main sh_down ''b'' ''us-east-1'' ''2025-03-27 15:48:38 UTC'' names0 fresh_world)) =
     [CHR 0x0A # ''Timestamp: 2025-03-27 15:48:38 UTC'',
      ''Error listing objects: Could not connect to the endpoint URL: '' @ [CHR 0x22] @
        ''https://b.s3.us-east-1.amazonaws.com/'' @ [CHR 0x22],
      ''No objects found in bucket.''] \<and>
   main sh_empty_bucket ''b'' ''us-east-1'' ''2025-03-27 15:48:38 UTC'' names0 fresh_world =
     (Inr NoObjects,
      \<lparr>calls = [''aws s3 ls s3://b/ --recursive --region us-east-1 --no-sign-request''],
       printed = [CHR 0x0A # ''Timestamp: 2025-03-27 15:48:38 UTC'',
                  ''No objects found in bucket.'']\<rparr>)"
proof -
  have s: "strip ''b'' = ''b''" "strip ''us-east-1'' = ''us-east-1''"
    by (simp_all add: strip_def is_space_def)
  have r: "resolve_region sh_down (strip ''b'') (strip ''us-east-1'') fresh_world =
      (Some ''us-east-1'', fresh_world)"
    by (simp add: s resolve_region_given)
  have a: "run_command sh_down (list_cmd (strip ''b'') ''us-east-1'')
           (print (CHR 0x0A # ''Timestamp: '' @ ''2025-03-27 15:48:38 UTC'') fresh_world) =
       (('''', ''Could not connect to the endpoint URL: '' @ [CHR 0x22] @
                ''https://b.s3.us-east-1.amazonaws.com/'' @ [CHR 0x22]),
        \<lparr>calls = [''aws s3 ls s3://b/ --recursive --region us-east-1 --no-sign-request''],
         printed = [CHR 0x0A # ''Timestamp: 2025-03-27 15:48:38 UTC'']\<rparr>)"
    by (simp add: s sh_down_def list_cmd_def shell_eval)
  have e: "''Could not connect to the endpoint URL: '' @ [CHR 0x22] @
                ''https://b.s3.us-east-1.amazonaws.com/'' @ [CHR 0x22] \<noteq> [] \<or> '''' = ''''"
    by simp
  have r': "resolve_region sh_empty_bucket (strip ''b'') (strip ''us-east-1'') fresh_world =
      (Some ''us-east-1'', fresh_world)"
    by (simp add: s resolve_region_given)
  have a': "run_command sh_empty_bucket (list_cmd (strip ''b'') ''us-east-1'')
           (print (CHR 0x0A # ''Timestamp: '' @ ''2025-03-27 15:48:38 UTC'') fresh_world) =
       (('''', ''''),
        \<lparr>calls = [''aws s3 ls s3://b/ --recursive --region us-east-1 --no-sign-request''],
         printed = [CHR 0x0A # ''Timestamp: 2025-03-27 15:48:38 UTC'']\<rparr>)"
    by (simp add: s sh_empty_bucket_def list_cmd_def shell_eval)
  have e': "'''' \<noteq> [] \<or> '''' = ''''"
    by simp
  from main_empty_or_failed_listing [OF r a e, of names0]
    main_empty_or_failed_listing [OF r' a' e', of names0]
  show ?thesis
    by (simp add: print_def fresh_world_def)
qed

text \<open>
  C6 as stated fails: a listing that cannot reach the endpoint and a listing of an
  empty bucket give the caller the same value, and give the run the same outcome.
\<close>

theorem listing_failure_same_as_empty_listing:
  "snd (fst (run_command sh_down (list_cmd ''b'' ''us-east-1'') fresh_world)) \<noteq> [] \<and>
   run_command sh_empty_bucket (list_cmd ''b'' ''us-east-1'') fresh_world =
     (('''', ''''), \<lparr>calls = [list_cmd ''b'' ''us-east-1''], printed = []\<rparr>) \<and>
   fst (list_s3_objects sh_down ''b'' ''us-east-1'' fresh_world) =
     fst (list_s3_objects sh_empty_bucket ''b'' ''us-east-1'' fresh_world) \<and>
   fst (main sh_down ''b'' ''us-east-1'' ''2025-03-27 15:48:38 UTC'' names0 fresh_world) =
     fst (main sh_empty_bucket ''b'' ''us-east-1'' ''2025-03-27 15:48:38 UTC'' names0 fresh_world)"
  by (simp add: main_def resolve_region_def sh_down_def sh_empty_bucket_def parse_eval shell_eval)

end
